theory Spec2Isabelle
  imports Main "HOL-Library.Sublist"
begin

section \<open>gprofiler/gprofiler\_types.py: stack counters, error stacks and argument validators\<close>

text \<open>
  A shallow embedding of \<^verbatim>\<open>gprofiler/gprofiler_types.py\<close>.

  \<^item> A Python \<^verbatim>\<open>str\<close> is a \<open>string\<close>: each \<open>char\<close> stands for the code point of the
    same number, so the strings covered are those over the code points 0 to 255.
  \<^item> A Python \<^verbatim>\<open>int\<close> is an \<open>int\<close>.
  \<^item> A \<^verbatim>\<open>Counter\<close> (a \<^verbatim>\<open>dict\<close> subclass, which iterates in insertion order) is an
    association list in insertion order; a well-formed one has distinct keys.
  \<^item> An exception is the \<open>Inl\<close> of a sum; the value returned is the \<open>Inr\<close>.
\<close>

subsection \<open>Exceptions\<close>

datatype error =
    ValueError
  | StopIteration
  | AssertionError
  | RuntimeError
  | ArgumentTypeError string

subsection \<open>Built-ins of the language that the module calls\<close>

text \<open>\<^verbatim>\<open>str.split(sep)\<close> with a one-character separator: every occurrence splits.\<close>

fun str_split :: "char \<Rightarrow> string \<Rightarrow> string list" where
  "str_split sep [] = [[]]"
| "str_split sep (c # s) =
     (if c = sep then [] # str_split sep s
      else (case str_split sep s of [] \<Rightarrow> [[c]] | p # ps \<Rightarrow> (c # p) # ps))"

text \<open>\<^verbatim>\<open>str.split(sep, maxsplit=1)\<close>: only the first occurrence splits; a string
  without the separator comes back whole, as a one-element list.\<close>

definition str_split1 :: "char \<Rightarrow> string \<Rightarrow> string list" where
  "str_split1 sep s =
     (case dropWhile (\<lambda>c. c \<noteq> sep) s of
        [] \<Rightarrow> [s]
      | _ # rest \<Rightarrow> [takeWhile (\<lambda>c. c \<noteq> sep) s, rest])"

text \<open>The tuple assignment \<^verbatim>\<open>a, b = xs\<close>: a list of any other length than two raises
  \<^verbatim>\<open>ValueError\<close>.\<close>

fun unpack2 :: "'a list \<Rightarrow> error + ('a \<times> 'a)" where
  "unpack2 [a, b] = Inr (a, b)"
| "unpack2 _ = Inl ValueError"

text \<open>\<^verbatim>\<open>int(s)\<close> on a string, base ten: whitespace around the number is dropped, one
  sign may come first, and the digits may be grouped by single underscores. The
  interpreter's configurable limit on the number of digits is not modelled.\<close>

definition is_space :: "char \<Rightarrow> bool" where
  "is_space c = (c \<in> set [CHR 0x09, CHR 0x0A, CHR 0x0B, CHR 0x0C, CHR 0x0D, CHR 0x20, CHR 0x85, CHR 0xA0])"

definition is_digit :: "char \<Rightarrow> bool" where
  "is_digit c = (c \<in> set ''0123456789'')"

definition digit_val :: "char \<Rightarrow> nat" where
  "digit_val c = of_char c - 48"

definition strip :: "string \<Rightarrow> string" where
  "strip s = rev (dropWhile is_space (rev (dropWhile is_space s)))"

fun parse_digits :: "nat \<Rightarrow> string \<Rightarrow> nat option" where
  "parse_digits acc [] = Some acc"
| "parse_digits acc [c] = (if is_digit c then Some (10 * acc + digit_val c) else None)"
| "parse_digits acc (c # d # s) =
     (if is_digit c then parse_digits (10 * acc + digit_val c) (d # s)
      else if c = CHR ''_'' \<and> is_digit d then parse_digits (10 * acc + digit_val d) s
      else None)"

definition py_int :: "string \<Rightarrow> error + int" where
  "py_int s =
     (let t = strip s;
          neg = (case t of [] \<Rightarrow> False | c # _ \<Rightarrow> c = CHR ''-'');
          u = (case t of [] \<Rightarrow> [] | c # r \<Rightarrow> if c = CHR ''+'' \<or> c = CHR ''-'' then r else t)
      in case u of
           [] \<Rightarrow> Inl ValueError
         | c # r \<Rightarrow>
             if is_digit c then
               (case parse_digits (digit_val c) r of
                  None \<Rightarrow> Inl ValueError
                | Some n \<Rightarrow> Inr (if neg then - int n else int n))
             else Inl ValueError)"

text \<open>\<^verbatim>\<open>repr\<close> of an integer: its decimal digits, after a minus sign when negative.\<close>

fun str_nat :: "nat \<Rightarrow> string" where
  "str_nat n =
     (if n < 10 then [''0123456789'' ! n]
      else str_nat (n div 10) @ [''0123456789'' ! (n mod 10)])"

definition py_repr_int :: "int \<Rightarrow> string" where
  "py_repr_int i = (if i < 0 then CHR ''-'' # str_nat (nat (- i)) else str_nat (nat i))"

text \<open>\<^verbatim>\<open>repr\<close> of a string: in single quotes, or in double quotes when the string has a
  single quote and no double quote; the quote in use and the backslash are escaped, and
  so is every character that is not printable.\<close>

definition is_printable :: "char \<Rightarrow> bool" where
  "is_printable c =
     (let n = (of_char c :: nat) in (32 \<le> n \<and> n \<le> 126) \<or> (161 \<le> n \<and> n \<noteq> 173))"

definition hex2 :: "char \<Rightarrow> string" where
  "hex2 c =
     (let n = (of_char c :: nat)
      in [''0123456789abcdef'' ! (n div 16), ''0123456789abcdef'' ! (n mod 16)])"

definition repr_quote :: "string \<Rightarrow> char" where
  "repr_quote s = (if CHR 0x27 \<in> set s \<and> CHR 0x22 \<notin> set s then CHR 0x22 else CHR 0x27)"

definition repr_char :: "char \<Rightarrow> char \<Rightarrow> string" where
  "repr_char q c =
     (if c = q \<or> c = CHR 0x5C then [CHR 0x5C, c]
      else if c = CHR 0x09 then [CHR 0x5C, CHR ''t'']
      else if c = CHR 0x0A then [CHR 0x5C, CHR ''n'']
      else if c = CHR 0x0D then [CHR 0x5C, CHR ''r'']
      else if is_printable c then [c]
      else [CHR 0x5C, CHR ''x''] @ hex2 c)"

definition py_repr_str :: "string \<Rightarrow> string" where
  "py_repr_str s = (let q = repr_quote s in [q] @ concat (map (repr_char q) s) @ [q])"

text \<open>\<^verbatim>\<open>sep.join(xs)\<close>.\<close>

fun str_join :: "string \<Rightarrow> string list \<Rightarrow> string" where
  "str_join sep [] = []"
| "str_join sep [x] = x"
| "str_join sep (x # y # ys) = x @ sep @ str_join sep (y # ys)"

text \<open>\<^verbatim>\<open>repr\<close> of a list of strings: the items' \<^verbatim>\<open>repr\<close>s, separated by a comma and a
  space, in square brackets.\<close>

definition py_repr_list :: "string list \<Rightarrow> string" where
  "py_repr_list xs = ''['' @ str_join '', '' (map py_repr_str xs) @ '']''"

subsection \<open>Dictionaries and counters\<close>

type_synonym StackToSampleCount = "(string \<times> int) list"

text \<open>\<^verbatim>\<open>d[k] = v\<close>: a key already present keeps its place and takes the new value; a new
  key goes last.\<close>

fun setitem :: "('k \<times> 'v) list \<Rightarrow> 'k \<Rightarrow> 'v \<Rightarrow> ('k \<times> 'v) list" where
  "setitem [] k v = [(k, v)]"
| "setitem ((k', v') # d) k v =
     (if k' = k then (k', v) # d else (k', v') # setitem d k v)"

text \<open>\<^verbatim>\<open>d.get(k, default)\<close>.\<close>

fun get_default :: "('k \<times> 'v) list \<Rightarrow> 'k \<Rightarrow> 'v \<Rightarrow> 'v" where
  "get_default [] k dflt = dflt"
| "get_default ((k', v') # d) k dflt = (if k' = k then v' else get_default d k dflt)"

text \<open>\<^verbatim>\<open>Counter.update(mapping)\<close>: the counts of the mapping are added to the
  counter's.\<close>

definition counter_update :: "StackToSampleCount \<Rightarrow> (string \<times> int) list \<Rightarrow> StackToSampleCount" where
  "counter_update self other =
     fold (\<lambda>(elem, count) acc. setitem acc elem (count + get_default acc elem 0)) other self"

subsection \<open>The regular expression of an error stack\<close>

text \<open>
  \<^verbatim>\<open>re.compile(r".*;\[Profiling .+: .+\]")\<close>, used through \<^verbatim>\<open>match\<close>: the pattern is
  a sequence of one-character atoms, each taken once, zero or more times or one or more
  times. \<^verbatim>\<open>.\<close> is any character but the newline (no flag is given). \<^verbatim>\<open>match\<close> anchors
  the pattern at the start of the string and not at its end. A repetition takes a
  character and, failing that way, gives it back (backtracking).
\<close>

datatype atom = Lit char | AnyChar

datatype quant = Once | ZeroOrMore | OneOrMore

type_synonym regex = "(atom \<times> quant) list"

fun atom_ok :: "atom \<Rightarrow> char \<Rightarrow> bool" where
  "atom_ok (Lit l) c = (c = l)"
| "atom_ok AnyChar c = (c \<noteq> CHR 0x0A)"

fun re_match :: "regex \<Rightarrow> string \<Rightarrow> bool" where
  "re_match [] s = True"
| "re_match ((a, Once) # r) [] = False"
| "re_match ((a, Once) # r) (c # s) = (atom_ok a c \<and> re_match r s)"
| "re_match ((a, ZeroOrMore) # r) [] = re_match r []"
| "re_match ((a, ZeroOrMore) # r) (c # s) =
     ((atom_ok a c \<and> re_match ((a, ZeroOrMore) # r) s) \<or> re_match r (c # s))"
| "re_match ((a, OneOrMore) # r) [] = False"
| "re_match ((a, OneOrMore) # r) (c # s) = (atom_ok a c \<and> re_match ((a, ZeroOrMore) # r) s)"

definition lits :: "string \<Rightarrow> regex" where
  "lits s = map (\<lambda>c. (Lit c, Once)) s"

definition PROFILING_ERROR_STACK_PATTERN :: regex where
  "PROFILING_ERROR_STACK_PATTERN =
     [(AnyChar, ZeroOrMore)] @ lits '';[Profiling '' @ [(AnyChar, OneOrMore)] @ lits '': ''
       @ [(AnyChar, OneOrMore)] @ lits '']''"

subsection \<open>ProfilingErrorStack\<close>

text \<open>\<^verbatim>\<open>is_error_stack\<close>: one entry, whose key the pattern matches. The \<^verbatim>\<open>and\<close> of the
  source reads the first key only when the length is one.\<close>

definition is_error_stack :: "StackToSampleCount \<Rightarrow> bool" where
  "is_error_stack stack =
     (case stack of
        [(k, _)] \<Rightarrow> re_match PROFILING_ERROR_STACK_PATTERN k
      | _ \<Rightarrow> False)"

text \<open>\<^verbatim>\<open>__init__\<close>: an empty counter, updated with the one key at count 1, then the
  assertion.\<close>

definition ProfilingErrorStack :: "string \<Rightarrow> string \<Rightarrow> string \<Rightarrow> error + StackToSampleCount" where
  "ProfilingErrorStack what reason comm =
     (let self = counter_update [] [(comm @ '';[Profiling '' @ what @ '': '' @ reason @ '']'', 1)]
      in if is_error_stack self then Inr self else Inl AssertionError)"

text \<open>The body of the loop of \<^verbatim>\<open>attach_error_to_stacks\<close> up to the new key: the frame
  is split at its first semicolon, and the error frame goes between the two parts.\<close>

definition annotate :: "string \<Rightarrow> string \<Rightarrow> error + string" where
  "annotate error_frame frame =
     (case unpack2 (str_split1 CHR '';'' frame) of
        Inl e \<Rightarrow> Inl e
      | Inr (comm, stack) \<Rightarrow> Inr (comm @ '';'' @ error_frame @ '';'' @ stack))"

text \<open>The loop over \<^verbatim>\<open>source_stacks.items()\<close>, with \<^verbatim>\<open>dest_stacks\<close> as accumulator.\<close>

fun attach_loop :: "string \<Rightarrow> (string \<times> int) list \<Rightarrow> StackToSampleCount \<Rightarrow> error + StackToSampleCount" where
  "attach_loop error_frame [] dest_stacks = Inr dest_stacks"
| "attach_loop error_frame ((frame, count) # items) dest_stacks =
     (case annotate error_frame frame of
        Inl e \<Rightarrow> Inl e
      | Inr annotated \<Rightarrow> attach_loop error_frame items (setitem dest_stacks annotated count))"

text \<open>\<^verbatim>\<open>next(iter(error_stack))\<close> raises \<^verbatim>\<open>StopIteration\<close> on an empty counter.\<close>

definition error_frame_of :: "StackToSampleCount \<Rightarrow> error + string" where
  "error_frame_of error_stack =
     (case error_stack of
        [] \<Rightarrow> Inl StopIteration
      | (k, _) # _ \<Rightarrow>
          (case unpack2 (str_split1 CHR '';'' k) of
             Inl e \<Rightarrow> Inl e
           | Inr (_, error_frame) \<Rightarrow> Inr error_frame))"

definition attach_error_to_stacks :: "StackToSampleCount \<Rightarrow> StackToSampleCount \<Rightarrow> error + StackToSampleCount" where
  "attach_error_to_stacks source_stacks error_stack =
     (case error_frame_of error_stack of
        Inl e \<Rightarrow> Inl e
      | Inr error_frame \<Rightarrow> attach_loop error_frame source_stacks [])"

subsection \<open>The argument validators\<close>

definition positive_integer :: "string \<Rightarrow> error + int" where
  "positive_integer value_str =
     (case py_int value_str of
        Inl e \<Rightarrow> Inl e
      | Inr v \<Rightarrow>
          if v \<le> 0 then Inl (ArgumentTypeError (''invalid positive integer value: '' @ py_repr_int v))
          else Inr v)"

definition nonnegative_integer :: "string \<Rightarrow> error + int" where
  "nonnegative_integer value_str =
     (case py_int value_str of
        Inl e \<Rightarrow> Inl e
      | Inr v \<Rightarrow>
          if v < 0 then Inl (ArgumentTypeError (''invalid non-negative integer value: '' @ py_repr_int v))
          else Inr v)"

text \<open>The list comprehension of \<^verbatim>\<open>integers_list\<close>: the first segment that \<^verbatim>\<open>int\<close>
  refuses ends it.\<close>

fun int_each :: "string list \<Rightarrow> error + int list" where
  "int_each [] = Inr []"
| "int_each (v # vs) =
     (case py_int v of
        Inl e \<Rightarrow> Inl e
      | Inr n \<Rightarrow> (case int_each vs of Inl e \<Rightarrow> Inl e | Inr ns \<Rightarrow> Inr (n # ns)))"

definition integers_list_message :: string where
  "integers_list_message =
     ''Integer list should be a single integer, or comma separated list of integers f.e. 13,452,2388''"

definition integers_list :: "string \<Rightarrow> error + int list" where
  "integers_list value_str =
     (case int_each (str_split CHR '','' value_str) of
        Inl e \<Rightarrow> (if e = ValueError then Inl (ArgumentTypeError integers_list_message) else Inl e)
      | Inr vals \<Rightarrow> Inr vals)"

text \<open>\<^verbatim>\<open>integer_range(min_range, max_range)\<close> returns a closure: the partial
  application of this function to the two bounds.\<close>

definition integer_range :: "int \<Rightarrow> int \<Rightarrow> string \<Rightarrow> error + int" where
  "integer_range min_range max_range value_str =
     (case py_int value_str of
        Inl e \<Rightarrow> Inl e
      | Inr v \<Rightarrow>
          if v < min_range \<or> v \<ge> max_range then
            Inl (ArgumentTypeError (''invalid integer value '' @ py_repr_int v @ '' (out of range ''
                   @ py_repr_int min_range @ ''-'' @ py_repr_int max_range @ '')''))
          else Inr v)"

text \<open>The loop of \<^verbatim>\<open>comma_separated_enum_list\<close>: the first value that is not an option
  raises.\<close>

fun enum_loop :: "string list \<Rightarrow> string list \<Rightarrow> error + unit" where
  "enum_loop options [] = Inr ()"
| "enum_loop options (v # vs) =
     (if v \<notin> set options then
        Inl (ArgumentTypeError (''invalid value '' @ py_repr_str v @ '' (allowed values: ''
               @ py_repr_list options @ '')''))
      else enum_loop options vs)"

definition comma_separated_enum_list :: "string list \<Rightarrow> string \<Rightarrow> error + string list" where
  "comma_separated_enum_list options val =
     (let vals = str_split CHR '','' val
      in case enum_loop options vals of Inl e \<Rightarrow> Inl e | Inr _ \<Rightarrow> Inr vals)"

subsection \<open>attach\_error\_to\_stacks on a heap of counters\<close>

text \<open>
  The counters are objects: the caller passes references, and the function returns a
  reference to the counter it builds. A heap is the list of the live counters, an address
  an index into it, and a new counter goes at the end. The loop reads
  \<^verbatim>\<open>source_stacks\<close> through its reference at every step, as the dictionary iterator
  does: the iterator raises \<^verbatim>\<open>RuntimeError\<close> when the dictionary has changed size
  since the iteration began (\<open>n\<close> is the size at that moment, \<open>i\<close> the position of
  the iterator).
\<close>

type_synonym addr = nat

type_synonym heap = "StackToSampleCount list"

definition new_counter :: "heap \<Rightarrow> addr \<times> heap" where
  "new_counter h = (length h, h @ [[]])"

definition heap_setitem :: "heap \<Rightarrow> addr \<Rightarrow> string \<Rightarrow> int \<Rightarrow> heap" where
  "heap_setitem h a k v = h[a := setitem (h ! a) k v]"

function attach_loop_heap :: "string \<Rightarrow> addr \<Rightarrow> addr \<Rightarrow> nat \<Rightarrow> nat \<Rightarrow> heap \<Rightarrow> error + heap" where
  "attach_loop_heap error_frame source_stacks dest_stacks n i h =
     (if length (h ! source_stacks) \<noteq> n then Inl RuntimeError
      else if n \<le> i then Inr h
      else
        (case (h ! source_stacks) ! i of
           (frame, count) \<Rightarrow>
             (case annotate error_frame frame of
                Inl e \<Rightarrow> Inl e
              | Inr annotated \<Rightarrow>
                  attach_loop_heap error_frame source_stacks dest_stacks n (Suc i)
                    (heap_setitem h dest_stacks annotated count))))"
  by pat_completeness auto
termination
  by (relation "measure (\<lambda>(error_frame, source_stacks, dest_stacks, n, i, h). n - i)") auto

declare attach_loop_heap.simps [simp del]

definition attach_error_to_stacks_heap :: "heap \<Rightarrow> addr \<Rightarrow> addr \<Rightarrow> error + (addr \<times> heap)" where
  "attach_error_to_stacks_heap h source_stacks error_stack =
     (case error_frame_of (h ! error_stack) of
        Inl e \<Rightarrow> Inl e
      | Inr error_frame \<Rightarrow>
          (case new_counter h of
             (dest_stacks, h1) \<Rightarrow>
               (case attach_loop_heap error_frame source_stacks dest_stacks
                       (length (h1 ! source_stacks)) 0 h1 of
                  Inl e \<Rightarrow> Inl e
                | Inr h2 \<Rightarrow> Inr (dest_stacks, h2))))"

section \<open>Properties\<close>

subsection \<open>What the pattern matches\<close>

lemma re_match_lits: "re_match (lits t @ r) s \<longleftrightarrow> (\<exists>s'. s = t @ s' \<and> re_match r s')"
proof (induction t arbitrary: s)
  case Nil
  show ?case by (simp add: lits_def)
next
  case (Cons a t)
  have IH: "\<And>s. re_match (lits t @ r) s \<longleftrightarrow> (\<exists>s'. s = t @ s' \<and> re_match r s')"
    using Cons.IH .
  show ?case
  proof (cases s)
    case Nil
    then show ?thesis by (simp add: lits_def)
  next
    case (Cons c cs)
    have "re_match (lits (a # t) @ r) (c # cs) \<longleftrightarrow> (c = a \<and> re_match (lits t @ r) cs)"
      by (simp add: lits_def)
    then show ?thesis using IH [of cs] Cons by auto
  qed
qed

lemma re_match_star:
  "re_match ((AnyChar, ZeroOrMore) # r) s \<longleftrightarrow>
     (\<exists>u v. s = u @ v \<and> CHR 0x0A \<notin> set u \<and> re_match r v)"
proof (induction s)
  case Nil
  show ?case by simp
next
  case (Cons c s)
  show ?case (is "?L \<longleftrightarrow> ?R")
  proof
    assume ?L
    then consider "c \<noteq> CHR 0x0A" "re_match ((AnyChar, ZeroOrMore) # r) s" | "re_match r (c # s)"
      by auto
    then show ?R
    proof cases
      case 1
      then obtain u v where "s = u @ v" "CHR 0x0A \<notin> set u" "re_match r v"
        using Cons.IH by blast
      with 1 have "c # s = (c # u) @ v \<and> CHR 0x0A \<notin> set (c # u) \<and> re_match r v"
        by simp
      then show ?thesis by blast
    next
      case 2
      then have "c # s = [] @ (c # s) \<and> CHR 0x0A \<notin> set ([] :: string) \<and> re_match r (c # s)"
        by simp
      then show ?thesis by blast
    qed
  next
    assume ?R
    then obtain u v where uv: "c # s = u @ v" "CHR 0x0A \<notin> set u" "re_match r v"
      by blast
    show ?L
    proof (cases u)
      case Nil
      with uv have "re_match r (c # s)" by simp
      then show ?thesis by simp
    next
      case (Cons d u')
      with uv have "c = d" "s = u' @ v" "CHR 0x0A \<notin> set u'" "c \<noteq> CHR 0x0A"
        by auto
      with uv(3) Cons.IH show ?thesis by auto
    qed
  qed
qed

lemma re_match_plus:
  "re_match ((AnyChar, OneOrMore) # r) s \<longleftrightarrow>
     (\<exists>u v. s = u @ v \<and> u \<noteq> [] \<and> CHR 0x0A \<notin> set u \<and> re_match r v)"
proof (cases s)
  case Nil
  then show ?thesis by simp
next
  case (Cons c cs)
  show ?thesis (is "?L \<longleftrightarrow> ?R")
  proof
    assume ?L
    with Cons obtain u v where "c \<noteq> CHR 0x0A" "cs = u @ v" "CHR 0x0A \<notin> set u" "re_match r v"
      using re_match_star [of r cs] by auto
    with Cons have "s = (c # u) @ v \<and> c # u \<noteq> [] \<and> CHR 0x0A \<notin> set (c # u) \<and> re_match r v"
      by simp
    then show ?R by blast
  next
    assume ?R
    then obtain u v where uv: "s = u @ v" "u \<noteq> []" "CHR 0x0A \<notin> set u" "re_match r v"
      by blast
    then obtain d u' where u: "u = d # u'" by (cases u) auto
    with uv Cons have "c = d" "cs = u' @ v" "CHR 0x0A \<notin> set u'" "c \<noteq> CHR 0x0A"
      by auto
    with uv(4) have "re_match ((AnyChar, ZeroOrMore) # r) cs"
      using re_match_star [of r cs] by blast
    with \<open>c \<noteq> CHR 0x0A\<close> Cons show ?L by simp
  qed
qed

lemma re_match_error_shape:
  "re_match ((AnyChar, ZeroOrMore) # (lits A @ ((AnyChar, OneOrMore) # (lits B
      @ ((AnyChar, OneOrMore) # (lits C @ [])))))) k \<longleftrightarrow>
     (\<exists>comm what reason rest.
        k = comm @ A @ what @ B @ reason @ C @ rest \<and>
        CHR 0x0A \<notin> set comm \<and> what \<noteq> [] \<and> CHR 0x0A \<notin> set what \<and>
        reason \<noteq> [] \<and> CHR 0x0A \<notin> set reason)"
  (is "?L \<longleftrightarrow> ?R")
proof
  assume ?L
  then obtain comm v1 where 1: "k = comm @ v1" "CHR 0x0A \<notin> set comm"
      and m1: "re_match (lits A @ ((AnyChar, OneOrMore) # (lits B
                 @ ((AnyChar, OneOrMore) # (lits C @ []))))) v1"
    unfolding re_match_star by blast
  from m1 obtain s1 where 2: "v1 = A @ s1"
      and m2: "re_match ((AnyChar, OneOrMore) # (lits B @ ((AnyChar, OneOrMore) # (lits C @ [])))) s1"
    unfolding re_match_lits by blast
  from m2 obtain what v2 where 3: "s1 = what @ v2" "what \<noteq> []" "CHR 0x0A \<notin> set what"
      and m3: "re_match (lits B @ ((AnyChar, OneOrMore) # (lits C @ []))) v2"
    unfolding re_match_plus by blast
  from m3 obtain s2 where 4: "v2 = B @ s2"
      and m4: "re_match ((AnyChar, OneOrMore) # (lits C @ [])) s2"
    unfolding re_match_lits by blast
  from m4 obtain reason v3 where 5: "s2 = reason @ v3" "reason \<noteq> []" "CHR 0x0A \<notin> set reason"
      and m5: "re_match (lits C @ []) v3"
    unfolding re_match_plus by blast
  from m5 obtain rest where 6: "v3 = C @ rest"
    unfolding re_match_lits by blast
  have "k = comm @ A @ what @ B @ reason @ C @ rest"
    by (simp only: 1 2 3 4 5 6)
  with 1 3 5 show ?R by blast
next
  assume ?R
  then obtain comm what reason rest where
    k: "k = comm @ A @ what @ B @ reason @ C @ rest" and
    c: "CHR 0x0A \<notin> set comm" and w: "what \<noteq> []" "CHR 0x0A \<notin> set what" and
    r: "reason \<noteq> []" "CHR 0x0A \<notin> set reason"
    by blast
  have m5: "re_match (lits C @ []) (C @ rest)"
    unfolding re_match_lits by simp
  have m4: "re_match ((AnyChar, OneOrMore) # (lits C @ [])) (reason @ C @ rest)"
    unfolding re_match_plus using r m5 by blast
  have m3: "re_match (lits B @ ((AnyChar, OneOrMore) # (lits C @ []))) (B @ reason @ C @ rest)"
    unfolding re_match_lits using m4 by blast
  have m2: "re_match ((AnyChar, OneOrMore) # (lits B @ ((AnyChar, OneOrMore) # (lits C @ []))))
              (what @ B @ reason @ C @ rest)"
    unfolding re_match_plus using w m3 by blast
  have m1: "re_match (lits A @ ((AnyChar, OneOrMore) # (lits B
                 @ ((AnyChar, OneOrMore) # (lits C @ []))))) (A @ what @ B @ reason @ C @ rest)"
    unfolding re_match_lits using m2 by blast
  show ?L
    unfolding re_match_star k using c m1 by blast
qed

lemma pattern_match_iff:
  "re_match PROFILING_ERROR_STACK_PATTERN k \<longleftrightarrow>
     (\<exists>comm what reason rest.
        k = comm @ '';[Profiling '' @ what @ '': '' @ reason @ '']'' @ rest \<and>
        CHR 0x0A \<notin> set comm \<and> what \<noteq> [] \<and> CHR 0x0A \<notin> set what \<and>
        reason \<noteq> [] \<and> CHR 0x0A \<notin> set reason)"
proof -
  have p: "PROFILING_ERROR_STACK_PATTERN =
      (AnyChar, ZeroOrMore) # (lits '';[Profiling '' @ ((AnyChar, OneOrMore) # (lits '': ''
         @ ((AnyChar, OneOrMore) # (lits '']'' @ [])))))"
    by (simp only: PROFILING_ERROR_STACK_PATTERN_def append_Cons append_Nil append_Nil2)
  show ?thesis
    unfolding p by (rule re_match_error_shape)
qed

subsection \<open>Splitting a frame and inserting the error frame\<close>

lemma str_split1_nosep: "sep \<notin> set s \<Longrightarrow> str_split1 sep s = [s]"
proof -
  assume "sep \<notin> set s"
  then have d: "dropWhile (\<lambda>c. c \<noteq> sep) s = []"
    by (simp add: dropWhile_eq_Nil_conv) blast
  show ?thesis unfolding str_split1_def d by simp
qed

lemma str_split1_append:
  assumes "sep \<notin> set p"
  shows "str_split1 sep (p @ sep # q) = [p, q]"
proof -
  have all: "\<And>x. x \<in> set p \<Longrightarrow> x \<noteq> sep" using assms by blast
  have d: "dropWhile (\<lambda>c. c \<noteq> sep) (p @ sep # q) = sep # q"
    using all by (simp add: dropWhile_append2)
  have t: "takeWhile (\<lambda>c. c \<noteq> sep) (p @ sep # q) = p"
    using all by (simp add: takeWhile_append2)
  show ?thesis unfolding str_split1_def d t by simp
qed

lemma split_at_first:
  "sep \<in> set s \<Longrightarrow> \<exists>p q. s = p @ sep # q \<and> sep \<notin> set p"
  by (rule split_list_first)

lemma annotate_append:
  "CHR '';'' \<notin> set p \<Longrightarrow>
   annotate ef (p @ CHR '';'' # q) = Inr (p @ CHR '';'' # ef @ CHR '';'' # q)"
  by (simp add: annotate_def str_split1_append)

lemma annotate_nosep: "CHR '';'' \<notin> set k \<Longrightarrow> annotate ef k = Inl ValueError"
  by (simp add: annotate_def str_split1_nosep)


lemma annotate_Inr_iff:
  "annotate ef k = Inr a \<longleftrightarrow>
     (\<exists>p q. k = p @ CHR '';'' # q \<and> CHR '';'' \<notin> set p \<and> a = p @ CHR '';'' # ef @ CHR '';'' # q)"
proof (cases "CHR '';'' \<in> set k")
  case True
  from split_at_first [OF True] obtain p q where pq: "k = p @ CHR '';'' # q" "CHR '';'' \<notin> set p"
    by blast
  have uniq: "p' = p \<and> q' = q"
    if a: "k = p' @ CHR '';'' # q'" "CHR '';'' \<notin> set p'" for p' q'
  proof -
    have "str_split1 CHR '';'' k = [p, q]"
      unfolding pq(1) using pq(2) by (rule str_split1_append)
    moreover have "str_split1 CHR '';'' k = [p', q']"
      unfolding a(1) using a(2) by (rule str_split1_append)
    ultimately show "p' = p \<and> q' = q" by simp
  qed
  have ann: "annotate ef k = Inr (p @ CHR '';'' # ef @ CHR '';'' # q)"
    unfolding pq(1) using pq(2) by (rule annotate_append)
  show ?thesis
  proof
    assume "annotate ef k = Inr a"
    with ann have "a = p @ CHR '';'' # ef @ CHR '';'' # q" by simp
    with pq show "\<exists>p q. k = p @ CHR '';'' # q \<and> CHR '';'' \<notin> set p \<and> a = p @ CHR '';'' # ef @ CHR '';'' # q"
      by blast
  next
    assume "\<exists>p q. k = p @ CHR '';'' # q \<and> CHR '';'' \<notin> set p \<and> a = p @ CHR '';'' # ef @ CHR '';'' # q"
    then obtain p' q' where b: "k = p' @ CHR '';'' # q'" "CHR '';'' \<notin> set p'"
        "a = p' @ CHR '';'' # ef @ CHR '';'' # q'"
      by blast
    from uniq [OF b(1) b(2)] b(3) ann show "annotate ef k = Inr a" by simp
  qed
next
  case False
  then have "annotate ef k = Inl ValueError" by (rule annotate_nosep)
  moreover have "\<not> (\<exists>p q. k = p @ CHR '';'' # q \<and> CHR '';'' \<notin> set p \<and> a = p @ CHR '';'' # ef @ CHR '';'' # q)"
  proof
    assume "\<exists>p q. k = p @ CHR '';'' # q \<and> CHR '';'' \<notin> set p \<and> a = p @ CHR '';'' # ef @ CHR '';'' # q"
    then obtain p q where "k = p @ CHR '';'' # q" by blast
    then have "CHR '';'' \<in> set k" by simp
    with False show False by contradiction
  qed
  ultimately show ?thesis by simp
qed

lemma annotate_inj:
  assumes "annotate ef k = Inr a" and "annotate ef k' = Inr a"
  shows "k = k'"
proof -
  from assms(1) obtain p q where 1: "k = p @ CHR '';'' # q" "CHR '';'' \<notin> set p"
      "a = p @ CHR '';'' # (ef @ CHR '';'' # q)"
    unfolding annotate_Inr_iff by blast
  from assms(2) obtain p' q' where 2: "k' = p' @ CHR '';'' # q'" "CHR '';'' \<notin> set p'"
      "a = p' @ CHR '';'' # (ef @ CHR '';'' # q')"
    unfolding annotate_Inr_iff by blast
  have "str_split1 CHR '';'' a = [p, ef @ CHR '';'' # q]"
    unfolding 1(3) using 1(2) by (rule str_split1_append)
  moreover have "str_split1 CHR '';'' a = [p', ef @ CHR '';'' # q']"
    unfolding 2(3) using 2(2) by (rule str_split1_append)
  ultimately have "p = p'" "q = q'" by simp_all
  with 1 2 show ?thesis by simp
qed

subsection \<open>The loop of attach\_error\_to\_stacks\<close>

lemma setitem_fresh: "k \<notin> fst ` set d \<Longrightarrow> setitem d k v = d @ [(k, v)]"
  by (induction d) auto

lemma attach_loop_fresh:
  "list_all2 (\<lambda>x y. annotate ef (fst x) = Inr (fst y) \<and> snd y = snd x) items out \<Longrightarrow>
   distinct (map fst (dest @ out)) \<Longrightarrow>
   attach_loop ef items dest = Inr (dest @ out)"
proof (induction items out arbitrary: dest rule: list_all2_induct)
  case Nil
  then show ?case by simp
next
  case (Cons x xs y ys)
  obtain k c where x: "x = (k, c)" by (cases x)
  obtain k' c' where y: "y = (k', c')" by (cases y)
  from Cons.hyps(1) x y have a: "annotate ef k = Inr k'" "c' = c" by simp_all
  from Cons.prems y have fresh: "k' \<notin> fst ` set dest" by auto
  have d: "distinct (map fst ((dest @ [(k', c)]) @ ys))"
    using Cons.prems y by auto
  have "attach_loop ef (x # xs) dest = attach_loop ef xs (dest @ [(k', c)])"
    using x a fresh by (simp add: setitem_fresh)
  also have "\<dots> = Inr ((dest @ [(k', c)]) @ ys)"
    using d by (rule Cons.IH)
  finally show ?case using y a by simp
qed

lemma annotate_total: "CHR '';'' \<in> set k \<Longrightarrow> \<exists>a. annotate ef k = Inr a"
proof -
  assume "CHR '';'' \<in> set k"
  from split_at_first [OF this] obtain p q where "k = p @ CHR '';'' # q" "CHR '';'' \<notin> set p"
    by blast
  then show ?thesis unfolding annotate_Inr_iff by blast
qed

lemma attach_loop_total:
  "list_all (\<lambda>x. CHR '';'' \<in> set (fst x)) items \<Longrightarrow> \<exists>d. attach_loop ef items dest = Inr d"
proof (induction items arbitrary: dest)
  case Nil
  then show ?case by simp
next
  case (Cons x xs)
  obtain k c where x: "x = (k, c)" by (cases x)
  with Cons.prems have "CHR '';'' \<in> set k" by simp
  then obtain a where a: "annotate ef k = Inr a" using annotate_total by blast
  from Cons.prems have "list_all (\<lambda>x. CHR '';'' \<in> set (fst x)) xs" by simp
  then have "\<exists>d. attach_loop ef xs (setitem dest a c) = Inr d" by (rule Cons.IH)
  then show ?case using x a by simp
qed

lemma attach_loop_fails:
  "(k, c) \<in> set items \<Longrightarrow> CHR '';'' \<notin> set k \<Longrightarrow> attach_loop ef items dest = Inl ValueError"
proof (induction items arbitrary: dest)
  case Nil
  then show ?case by simp
next
  case (Cons x xs)
  obtain k' c' where x: "x = (k', c')" by (cases x)
  show ?case
  proof (cases "CHR '';'' \<in> set k'")
    case True
    then obtain a where a: "annotate ef k' = Inr a" using annotate_total by blast
    from True Cons.prems x have "(k, c) \<in> set xs" by auto
    then have "attach_loop ef xs (setitem dest a c') = Inl ValueError"
      using Cons.prems(2) by (rule Cons.IH)
    then show ?thesis using x a by simp
  next
    case False
    then have "annotate ef k' = Inl ValueError" by (rule annotate_nosep)
    then show ?thesis using x by simp
  qed
qed

lemma annotated_items:
  "list_all (\<lambda>x. CHR '';'' \<in> set (fst x)) items \<Longrightarrow>
   \<exists>out. list_all2 (\<lambda>x y. annotate ef (fst x) = Inr (fst y) \<and> snd y = snd x) items out"
proof (induction items)
  case Nil
  then show ?case by simp
next
  case (Cons x xs)
  then obtain out where out: "list_all2 (\<lambda>x y. annotate ef (fst x) = Inr (fst y) \<and> snd y = snd x) xs out"
    by auto
  from Cons.prems have "CHR '';'' \<in> set (fst x)" by simp
  then obtain a where a: "annotate ef (fst x) = Inr a" using annotate_total by blast
  have "list_all2 (\<lambda>x y. annotate ef (fst x) = Inr (fst y) \<and> snd y = snd x) (x # xs) ((a, snd x) # out)"
    using out a by simp
  then show ?case by blast
qed

lemma annotated_distinct:
  "list_all2 (\<lambda>x y. annotate ef (fst x) = Inr (fst y) \<and> snd y = snd x) items out \<Longrightarrow>
   distinct (map fst items) \<Longrightarrow> distinct (map fst out)"
proof (induction items out rule: list_all2_induct)
  case Nil
  then show ?case by simp
next
  case (Cons x xs y ys)
  have "fst y \<notin> fst ` set ys"
  proof
    assume "fst y \<in> fst ` set ys"
    then obtain y' where y': "y' \<in> set ys" "fst y' = fst y" by auto
    then obtain j where j: "j < length ys" "ys ! j = y'" by (auto simp: in_set_conv_nth)
    from Cons.hyps(2) j have "annotate ef (fst (xs ! j)) = Inr (fst y')"
      by (auto simp: list_all2_conv_all_nth)
    with y' Cons.hyps(1) have "fst (xs ! j) = fst x" by (auto intro: annotate_inj)
    moreover from Cons.hyps(2) j have "j < length xs" by (simp add: list_all2_lengthD)
    ultimately have "fst x \<in> fst ` set xs" by (metis imageI nth_mem)
    with Cons.prems show False by simp
  qed
  moreover from Cons have "distinct (map fst ys)" by simp
  ultimately show ?case by simp
qed

lemma is_error_stack_D:
  assumes "is_error_stack es"
  shows "\<exists>k c comm what reason rest.
           es = [(k, c)] \<and> k = comm @ '';[Profiling '' @ what @ '': '' @ reason @ '']'' @ rest \<and>
           CHR 0x0A \<notin> set comm \<and> what \<noteq> [] \<and> CHR 0x0A \<notin> set what \<and>
           reason \<noteq> [] \<and> CHR 0x0A \<notin> set reason"
proof -
  from assms obtain k c where es: "es = [(k, c)]" and m: "re_match PROFILING_ERROR_STACK_PATTERN k"
    unfolding is_error_stack_def by (auto split: list.splits)
  from m es show ?thesis unfolding pattern_match_iff by blast
qed

lemma error_frame_of_sep:
  assumes "error_stack \<noteq> []" and "CHR '';'' \<in> set (fst (hd error_stack))"
  shows "\<exists>ef. error_frame_of error_stack = Inr ef"
proof -
  from assms(1) obtain k c rest where es: "error_stack = (k, c) # rest"
    by (cases error_stack) auto
  with assms(2) have "CHR '';'' \<in> set k" by simp
  from split_at_first [OF this] obtain p q where pq: "k = p @ CHR '';'' # q" "CHR '';'' \<notin> set p"
    by blast
  have "str_split1 CHR '';'' k = [p, q]"
    unfolding pq(1) using pq(2) by (rule str_split1_append)
  then show ?thesis using es by (simp add: error_frame_of_def)
qed

lemma is_error_stack_sep:
  assumes "is_error_stack es"
  shows "es \<noteq> [] \<and> CHR '';'' \<in> set (fst (hd es))"
proof -
  from is_error_stack_D [OF assms] obtain k c comm what reason rest where
    "es = [(k, c)]" "k = comm @ '';[Profiling '' @ what @ '': '' @ reason @ '']'' @ rest"
    by blast
  then show ?thesis by simp
qed

lemma attach_wellformed:
  assumes d: "distinct (map fst source_stacks)"
    and s: "list_all (\<lambda>x. CHR '';'' \<in> set (fst x)) source_stacks"
    and e: "error_frame_of error_stack = Inr ef"
  shows "\<exists>dest. attach_error_to_stacks source_stacks error_stack = Inr dest \<and>
           list_all2 (\<lambda>x y. annotate ef (fst x) = Inr (fst y) \<and> snd y = snd x) source_stacks dest \<and>
           distinct (map fst dest)"
proof -
  from annotated_items [OF s] obtain out where
    out: "list_all2 (\<lambda>x y. annotate ef (fst x) = Inr (fst y) \<and> snd y = snd x) source_stacks out"
    by blast
  from annotated_distinct [OF out d] have dd: "distinct (map fst out)" .
  then have "distinct (map fst ([] @ out))" by simp
  with out have "attach_loop ef source_stacks [] = Inr ([] @ out)"
    by (rule attach_loop_fresh)
  then have "attach_error_to_stacks source_stacks error_stack = Inr out"
    using e by (simp add: attach_error_to_stacks_def)
  with out dd show ?thesis by blast
qed

lemma carried_counts:
  "list_all2 (\<lambda>x y. annotate ef (fst x) = Inr (fst y) \<and> snd y = snd x) items out \<Longrightarrow>
   length out = length items \<and> map snd out = map snd items"
  by (induction items out rule: list_all2_induct) simp_all

lemma construct_ok:
  assumes "what \<noteq> []" "reason \<noteq> []"
    and "CHR 0x0A \<notin> set what" "CHR 0x0A \<notin> set reason" "CHR 0x0A \<notin> set comm"
  shows "ProfilingErrorStack what reason comm =
           Inr [(comm @ '';[Profiling '' @ what @ '': '' @ reason @ '']'', 1)]"
proof -
  have "comm @ '';[Profiling '' @ what @ '': '' @ reason @ '']''
          = comm @ '';[Profiling '' @ what @ '': '' @ reason @ '']'' @ []"
    by simp
  with assms have "re_match PROFILING_ERROR_STACK_PATTERN
          (comm @ '';[Profiling '' @ what @ '': '' @ reason @ '']'')"
    unfolding pattern_match_iff by blast
  then show ?thesis
    by (simp add: ProfilingErrorStack_def counter_update_def is_error_stack_def)
qed

subsection \<open>Splitting on every separator, and the parsers\<close>

lemma str_split_nonempty: "str_split sep s \<noteq> []"
  by (induction s) (auto split: list.splits)

lemma str_split_no_sep: "t \<in> set (str_split sep s) \<Longrightarrow> sep \<notin> set t"
proof (induction s arbitrary: t)
  case Nil
  then show ?case by simp
next
  case (Cons c s)
  show ?case
  proof (cases "c = sep")
    case True
    with Cons.prems have "t = [] \<or> t \<in> set (str_split sep s)" by auto
    then show ?thesis using Cons.IH by auto
  next
    case False
    obtain p ps where ps: "str_split sep s = p # ps"
      using str_split_nonempty [of sep s] by (cases "str_split sep s") auto
    with False Cons.prems have "t = c # p \<or> t \<in> set ps" by auto
    moreover have "sep \<notin> set p" using Cons.IH [of p] ps by simp
    moreover have "\<And>t. t \<in> set ps \<Longrightarrow> sep \<notin> set t" using Cons.IH ps by simp
    ultimately show ?thesis using False by auto
  qed
qed

lemma str_join_Cons: "ys \<noteq> [] \<Longrightarrow> str_join sep (x # ys) = x @ sep @ str_join sep ys"
  by (cases ys) simp_all

lemma str_split_join: "str_join [sep] (str_split sep s) = s"
proof (induction s)
  case Nil
  show ?case by simp
next
  case (Cons c s)
  obtain p ps where ps: "str_split sep s = p # ps"
    using str_split_nonempty [of sep s] by (cases "str_split sep s") auto
  show ?case
  proof (cases "c = sep")
    case True
    then have "str_join [sep] (str_split sep (c # s)) = [] @ [sep] @ str_join [sep] (str_split sep s)"
      using str_split_nonempty [of sep s] by (simp add: str_join_Cons)
    then show ?thesis using Cons.IH True by simp
  next
    case False
    then have "str_split sep (c # s) = (c # p) # ps" using ps by simp
    moreover have "str_join [sep] ((c # p) # ps) = c # str_join [sep] (p # ps)"
      by (cases ps) simp_all
    ultimately show ?thesis using Cons.IH ps by simp
  qed
qed

lemma py_int_error: "py_int s = Inl e \<Longrightarrow> e = ValueError"
  by (auto simp: py_int_def Let_def split: list.splits if_splits option.splits)

lemma enum_loop_all:
  "list_all (\<lambda>t. t \<in> set options) vals \<Longrightarrow> enum_loop options vals = Inr ()"
  by (induction vals) simp_all

lemma enum_loop_first:
  "list_all (\<lambda>t. t \<in> set options) pre \<Longrightarrow> v \<notin> set options \<Longrightarrow>
   enum_loop options (pre @ v # post) =
     Inl (ArgumentTypeError (''invalid value '' @ py_repr_str v @ '' (allowed values: ''
            @ py_repr_list options @ '')''))"
  by (induction pre) simp_all

lemma int_each_all:
  "list_all2 (\<lambda>seg v. py_int seg = Inr v) segs vs \<Longrightarrow> int_each segs = Inr vs"
  by (induction segs vs rule: list_all2_induct) simp_all

lemma int_each_some_bad:
  "list_ex (\<lambda>seg. py_int seg = Inl ValueError) segs \<Longrightarrow> int_each segs = Inl ValueError"
proof (induction segs)
  case Nil
  then show ?case by simp
next
  case (Cons seg segs)
  show ?case
  proof (cases "py_int seg")
    case (Inl e)
    then have "e = ValueError" by (rule py_int_error)
    with Inl show ?thesis by simp
  next
    case (Inr n)
    with Cons.prems have "list_ex (\<lambda>seg. py_int seg = Inl ValueError) segs" by simp
    then have "int_each segs = Inl ValueError" by (rule Cons.IH)
    with Inr show ?thesis by simp
  qed
qed

lemma int_each_Inr:
  "int_each segs = Inr vs \<Longrightarrow> list_all2 (\<lambda>seg v. py_int seg = Inr v) segs vs"
  by (induction segs arbitrary: vs) (auto split: sum.splits)

lemma py_int_examples:
  "py_int ''0'' = Inr 0" "py_int ''-3'' = Inr (- 3)" "py_int ''1'' = Inr 1"
  "py_int ''2'' = Inr 2" "py_int ''3'' = Inr 3" "py_int ''9'' = Inr 9" "py_int ''10'' = Inr 10"
  "py_int ''x'' = Inl ValueError"
  by (simp_all add: py_int_def strip_def is_space_def is_digit_def digit_val_def)

lemma py_repr_int_examples:
  "py_repr_int 0 = ''0''" "py_repr_int (- 3) = ''-3''" "py_repr_int 10 = ''10''"
  by (simp_all add: py_repr_int_def)

lemma py_repr_str_examples:
  "py_repr_str '''' = [CHR 0x27, CHR 0x27]"
  "py_repr_str ''c'' = [CHR 0x27, CHR ''c'', CHR 0x27]"
  by (simp_all add: py_repr_str_def repr_quote_def repr_char_def is_printable_def Let_def)

lemma integers_list_message_no_x: "CHR ''x'' \<notin> set integers_list_message"
  by (simp add: integers_list_message_def)

subsection \<open>The loop on the heap computes what the loop on values computes\<close>

lemma attach_loop_heap_refines:
  assumes "source \<noteq> dest" and "source < length h" and "dest < length h"
    and "length (h ! source) = n" and "i \<le> n"
  shows "attach_loop_heap ef source dest n i h =
           (case attach_loop ef (drop i (h ! source)) (h ! dest) of
              Inl e \<Rightarrow> Inl e
            | Inr d \<Rightarrow> Inr (h[dest := d]))"
  using assms
proof (induction "n - i" arbitrary: i h)
  case 0
  then have "n \<le> i" by simp
  with 0 have "attach_loop_heap ef source dest n i h = Inr h"
    by (subst attach_loop_heap.simps) simp
  moreover from 0 \<open>n \<le> i\<close> have "drop i (h ! source) = []" by simp
  ultimately show ?case by simp
next
  case (Suc m)
  then have lt: "i < n" by simp
  obtain frame count where fc: "(h ! source) ! i = (frame, count)"
    by (cases "(h ! source) ! i")
  from lt Suc.prems have dr: "drop i (h ! source) = (frame, count) # drop (Suc i) (h ! source)"
    using Cons_nth_drop_Suc [of i "h ! source"] fc by simp
  show ?case
  proof (cases "annotate ef frame")
    case (Inl e)
    have "attach_loop_heap ef source dest n i h = Inl e"
      using lt Suc.prems fc Inl by (subst attach_loop_heap.simps) simp
    then show ?thesis using dr Inl by simp
  next
    case (Inr a)
    let ?h = "heap_setitem h dest a count"
    have step: "attach_loop_heap ef source dest n i h = attach_loop_heap ef source dest n (Suc i) ?h"
      using lt Suc.prems fc Inr by (subst attach_loop_heap.simps) simp
    have src: "?h ! source = h ! source"
      using Suc.prems by (simp add: heap_setitem_def)
    have dst: "?h ! dest = setitem (h ! dest) a count"
      using Suc.prems by (simp add: heap_setitem_def)
    have len: "length ?h = length h"
      by (simp add: heap_setitem_def)
    have upd: "\<And>d. ?h[dest := d] = h[dest := d]"
      by (simp add: heap_setitem_def)
    have m: "m = n - Suc i" using Suc.hyps(2) by simp
    have "attach_loop_heap ef source dest n (Suc i) ?h =
           (case attach_loop ef (drop (Suc i) (?h ! source)) (?h ! dest) of
              Inl e \<Rightarrow> Inl e
            | Inr d \<Rightarrow> Inr (?h[dest := d]))"
      using Suc.prems lt src len by (intro Suc.hyps(1) [OF m]) simp_all
    then show ?thesis
      unfolding step src dst upd using dr Inr by simp
  qed
qed

lemma attach_heap_refines:
  assumes "source < length h" and "es < length h"
  shows "attach_error_to_stacks_heap h source es =
           (case attach_error_to_stacks (h ! source) (h ! es) of
              Inl e \<Rightarrow> Inl e
            | Inr d \<Rightarrow> Inr (length h, h @ [d]))"
proof (cases "error_frame_of (h ! es)")
  case (Inl e)
  then show ?thesis
    by (simp add: attach_error_to_stacks_heap_def attach_error_to_stacks_def)
next
  case (Inr ef)
  let ?h1 = "h @ [[]]"
  have src: "?h1 ! source = h ! source" using assms(1) by (simp add: nth_append)
  have "attach_loop_heap ef source (length h) (length (h ! source)) 0 ?h1 =
           (case attach_loop ef (drop 0 (?h1 ! source)) (?h1 ! length h) of
              Inl e \<Rightarrow> Inl e
            | Inr d \<Rightarrow> Inr (?h1[length h := d]))"
    using assms(1) src by (intro attach_loop_heap_refines) simp_all
  then have loop: "attach_loop_heap ef source (length h) (length (h ! source)) 0 ?h1 =
           (case attach_loop ef (h ! source) [] of
              Inl e \<Rightarrow> Inl e
            | Inr d \<Rightarrow> Inr (h @ [d]))"
    by (simp only: src drop_0 nth_append_length list_update_length)
  have "attach_error_to_stacks_heap h source es =
      (case attach_loop_heap ef source (length h) (length (h ! source)) 0 ?h1 of
         Inl e \<Rightarrow> Inl e | Inr h2 \<Rightarrow> Inr (length h, h2))"
    using Inr by (simp add: attach_error_to_stacks_heap_def new_counter_def src)
  also have "\<dots> = (case attach_loop ef (h ! source) [] of
         Inl e \<Rightarrow> Inl e | Inr d \<Rightarrow> Inr (length h, h @ [d]))"
    unfolding loop by (simp split: sum.splits)
  finally show ?thesis using Inr by (simp add: attach_error_to_stacks_def)
qed

subsection \<open>The error stack builder\<close>

text \<open>
  C1. For the source stacks \<^verbatim>\<open>{"python;main;foo": 5, "python;main;bar": 3}\<close> and the
  error stack built from what \<^verbatim>\<open>cpu\<close>, reason \<^verbatim>\<open>permission denied\<close> and comm
  \<^verbatim>\<open>python\<close>, the constructor returns the one-entry counter of the key
  \<^verbatim>\<open>python;[Profiling cpu: permission denied]\<close>, and \<^verbatim>\<open>attach_error_to_stacks\<close> returns
  exactly the counter with the error frame put after \<^verbatim>\<open>python\<close> in both keys, the counts
  5 and 3 kept.
\<close>

theorem attach_example:
  "ProfilingErrorStack ''cpu'' ''permission denied'' ''python''
     = Inr [(''python;[Profiling cpu: permission denied]'', 1)] \<and>
   attach_error_to_stacks [(''python;main;foo'', 5), (''python;main;bar'', 3)]
       [(''python;[Profiling cpu: permission denied]'', 1)]
     = Inr [(''python;[Profiling cpu: permission denied];main;foo'', 5),
            (''python;[Profiling cpu: permission denied];main;bar'', 3)]"
proof
  show "ProfilingErrorStack ''cpu'' ''permission denied'' ''python''
     = Inr [(''python;[Profiling cpu: permission denied]'', 1)]"
    by (simp add: ProfilingErrorStack_def counter_update_def is_error_stack_def
        PROFILING_ERROR_STACK_PATTERN_def lits_def)
  show "attach_error_to_stacks [(''python;main;foo'', 5), (''python;main;bar'', 3)]
       [(''python;[Profiling cpu: permission denied]'', 1)]
     = Inr [(''python;[Profiling cpu: permission denied];main;foo'', 5),
            (''python;[Profiling cpu: permission denied];main;bar'', 3)]"
    by (simp add: attach_error_to_stacks_def error_frame_of_def annotate_def str_split1_def)
qed

text \<open>
  C2. For every counter of source stacks (distinct keys) in which every key has a
  semicolon, and every error stack (a counter that \<^verbatim>\<open>is_error_stack\<close> accepts),
  \<^verbatim>\<open>attach_error_to_stacks\<close> returns a counter with as many entries as the source, with
  distinct keys (the key transform is injective), whose entries are, in order, the
  annotated key of each source entry with that entry's count; so the counts, and their
  sum, are those of the source.
\<close>

theorem attach_keeps_entries_and_counts:
  assumes "distinct (map fst source_stacks)"
    and "list_all (\<lambda>x. CHR '';'' \<in> set (fst x)) source_stacks"
    and "is_error_stack error_stack"
  shows "\<exists>ef dest.
           error_frame_of error_stack = Inr ef \<and>
           attach_error_to_stacks source_stacks error_stack = Inr dest \<and>
           length dest = length source_stacks \<and>
           distinct (map fst dest) \<and>
           list_all2 (\<lambda>x y. annotate ef (fst x) = Inr (fst y) \<and> snd y = snd x) source_stacks dest \<and>
           map snd dest = map snd source_stacks \<and>
           sum_list (map snd dest) = sum_list (map snd source_stacks)"
proof -
  from is_error_stack_sep [OF assms(3)]
  have "error_stack \<noteq> []" "CHR '';'' \<in> set (fst (hd error_stack))" by simp_all
  then obtain ef where ef: "error_frame_of error_stack = Inr ef"
    using error_frame_of_sep by blast
  from attach_wellformed [OF assms(1) assms(2) ef] obtain dest where
    dest: "attach_error_to_stacks source_stacks error_stack = Inr dest"
      "list_all2 (\<lambda>x y. annotate ef (fst x) = Inr (fst y) \<and> snd y = snd x) source_stacks dest"
      "distinct (map fst dest)"
    by blast
  from carried_counts [OF dest(2)]
  have c: "length dest = length source_stacks" "map snd dest = map snd source_stacks" by simp_all
  then have "sum_list (map snd dest) = sum_list (map snd source_stacks)" by simp
  with ef dest c show ?thesis by blast
qed

theorem attach_keeps_entries_and_counts_witness:
  "distinct (map fst [(''python;main;foo'', 5::int), (''python;main;bar'', 3)]) \<and>
   list_all (\<lambda>x. CHR '';'' \<in> set (fst x)) [(''python;main;foo'', 5::int), (''python;main;bar'', 3)] \<and>
   is_error_stack [(''python;[Profiling cpu: permission denied]'', 1)] \<and>
   (\<exists>ef dest.
      error_frame_of [(''python;[Profiling cpu: permission denied]'', 1)] = Inr ef \<and>
      attach_error_to_stacks [(''python;main;foo'', 5), (''python;main;bar'', 3)]
        [(''python;[Profiling cpu: permission denied]'', 1)] = Inr dest \<and>
      length dest = length [(''python;main;foo'', 5::int), (''python;main;bar'', 3)] \<and>
      distinct (map fst dest) \<and>
      list_all2 (\<lambda>x y. annotate ef (fst x) = Inr (fst y) \<and> snd y = snd x)
        [(''python;main;foo'', 5), (''python;main;bar'', 3)] dest \<and>
      map snd dest = map snd [(''python;main;foo'', 5::int), (''python;main;bar'', 3)] \<and>
      sum_list (map snd dest) = sum_list (map snd [(''python;main;foo'', 5::int), (''python;main;bar'', 3)]))"
proof -
  have h1: "distinct (map fst [(''python;main;foo'', 5::int), (''python;main;bar'', 3)])"
    by simp
  have h2: "list_all (\<lambda>x. CHR '';'' \<in> set (fst x)) [(''python;main;foo'', 5::int), (''python;main;bar'', 3)]"
    by simp
  have h3: "is_error_stack [(''python;[Profiling cpu: permission denied]'', 1)]"
    by (simp add: is_error_stack_def PROFILING_ERROR_STACK_PATTERN_def lits_def)
  from attach_keeps_entries_and_counts [OF h1 h2 h3] h1 h2 h3 show ?thesis
    by (intro conjI)
qed

text \<open>
  C3. On the strings what \<^verbatim>\<open>cpu\<close>, reason \<^verbatim>\<open>permission denied\nretry\<close> (two lines) and
  comm \<^verbatim>\<open>python\<close>, all three non-empty, the constructor raises \<^verbatim>\<open>AssertionError\<close>: the
  pattern's \<^verbatim>\<open>.\<close> does not match the newline, so the key that the constructor has just
  built is not accepted by \<^verbatim>\<open>is_error_stack\<close>. (Lemma \<open>construct_ok\<close> gives the inputs
  on which the constructor does succeed.)
\<close>

theorem construct_fails_on_newline:
  "ProfilingErrorStack ''cpu'' (''permission denied'' @ [CHR 0x0A] @ ''retry'') ''python''
     = Inl AssertionError"
  by (simp add: ProfilingErrorStack_def counter_update_def is_error_stack_def
      PROFILING_ERROR_STACK_PATTERN_def lits_def)

text \<open>
  C4. \<^verbatim>\<open>attach_error_to_stacks\<close> raises nothing on well-formed input: when the error
  stack is not empty and its first key has a semicolon, and every key of the source
  stacks has a semicolon, it returns a counter.
\<close>

theorem attach_total_on_wellformed:
  assumes "error_stack \<noteq> []"
    and "CHR '';'' \<in> set (fst (hd error_stack))"
    and "list_all (\<lambda>x. CHR '';'' \<in> set (fst x)) source_stacks"
  shows "\<exists>dest. attach_error_to_stacks source_stacks error_stack = Inr dest"
proof -
  from error_frame_of_sep [OF assms(1) assms(2)] obtain ef where
    ef: "error_frame_of error_stack = Inr ef" by blast
  from attach_loop_total [OF assms(3)] obtain d where "attach_loop ef source_stacks [] = Inr d"
    by blast
  with ef show ?thesis by (simp add: attach_error_to_stacks_def)
qed

theorem attach_total_on_wellformed_witness:
  "[(''python;[Profiling cpu: permission denied]'', 1::int)] \<noteq> [] \<and>
   CHR '';'' \<in> set (fst (hd [(''python;[Profiling cpu: permission denied]'', 1::int)])) \<and>
   list_all (\<lambda>x. CHR '';'' \<in> set (fst x)) [(''a;b'', 2::int), (''a;b;c'', 7)] \<and>
   (\<exists>dest. attach_error_to_stacks [(''a;b'', 2), (''a;b;c'', 7)]
              [(''python;[Profiling cpu: permission denied]'', 1)] = Inr dest)"
proof -
  have h1: "[(''python;[Profiling cpu: permission denied]'', 1::int)] \<noteq> []"
    by simp
  have h2: "CHR '';'' \<in> set (fst (hd [(''python;[Profiling cpu: permission denied]'', 1::int)]))"
    by simp
  have h3: "list_all (\<lambda>x. CHR '';'' \<in> set (fst x)) [(''a;b'', 2::int), (''a;b;c'', 7)]"
    by simp
  from attach_total_on_wellformed [OF h1 h2 h3] h1 h2 h3 show ?thesis
    by (intro conjI)
qed

subsection \<open>The validators\<close>

text \<open>
  C5 (as stated, refuted). The claim has the error of \<^verbatim>\<open>integers_list\<close> list the
  offending raw text. On \<^verbatim>\<open>1,2,x\<close> the function raises the invalid-argument error with
  its one fixed message, in which neither \<^verbatim>\<open>x\<close> nor \<^verbatim>\<open>1,2,x\<close> occurs; the input
  \<^verbatim>\<open>y\<close> gets the very same message.
\<close>

theorem integers_list_message_counterexample:
  "integers_list ''1,2,x'' = Inl (ArgumentTypeError integers_list_message) \<and>
   \<not> sublist ''x'' integers_list_message \<and>
   \<not> sublist ''1,2,x'' integers_list_message \<and>
   integers_list ''y'' = Inl (ArgumentTypeError integers_list_message)"
proof (intro conjI)
  show "integers_list ''1,2,x'' = Inl (ArgumentTypeError integers_list_message)"
    by (simp add: integers_list_def py_int_examples)
  show "\<not> sublist ''x'' integers_list_message"
    using set_mono_sublist [of "''x''" integers_list_message] integers_list_message_no_x by auto
  show "\<not> sublist ''1,2,x'' integers_list_message"
    using set_mono_sublist [of "''1,2,x''" integers_list_message] integers_list_message_no_x by auto
  show "integers_list ''y'' = Inl (ArgumentTypeError integers_list_message)"
    by (simp add: integers_list_def py_int_def strip_def is_space_def is_digit_def)
qed

text \<open>
  C5 (amended). \<^verbatim>\<open>integers_list(text)\<close> splits the text on every comma (the segments
  have no comma and, joined by commas, give the text back) and parses each segment with
  \<^verbatim>\<open>int\<close>: when every segment parses, it returns the list of the integers, in order, and
  it returns a list only then; when a segment does not parse, it raises the
  invalid-argument error with a fixed message that does not depend on the input.
  \<^verbatim>\<open>integers_list("1,2,3")\<close> is \<^verbatim>\<open>[1, 2, 3]\<close>, and \<^verbatim>\<open>integers_list("1,2,x")\<close> raises.
\<close>

theorem integers_list_spec:
  "(\<forall>vs. list_all2 (\<lambda>seg v. py_int seg = Inr v) (str_split CHR '','' value_str) vs \<longrightarrow>
      integers_list value_str = Inr vs) \<and>
   (list_ex (\<lambda>seg. py_int seg = Inl ValueError) (str_split CHR '','' value_str) \<longrightarrow>
      integers_list value_str = Inl (ArgumentTypeError integers_list_message)) \<and>
   (\<forall>vs. integers_list value_str = Inr vs \<longrightarrow>
      list_all2 (\<lambda>seg v. py_int seg = Inr v) (str_split CHR '','' value_str) vs) \<and>
   str_join '','' (str_split CHR '','' value_str) = value_str \<and>
   list_all (\<lambda>t. CHR '','' \<notin> set t) (str_split CHR '','' value_str) \<and>
   integers_list ''1,2,3'' = Inr [1, 2, 3] \<and>
   integers_list ''1,2,x'' = Inl (ArgumentTypeError integers_list_message)"
proof (intro conjI allI impI)
  fix vs
  assume "list_all2 (\<lambda>seg v. py_int seg = Inr v) (str_split CHR '','' value_str) vs"
  then have "int_each (str_split CHR '','' value_str) = Inr vs" by (rule int_each_all)
  then show "integers_list value_str = Inr vs" by (simp add: integers_list_def)
next
  assume "list_ex (\<lambda>seg. py_int seg = Inl ValueError) (str_split CHR '','' value_str)"
  then have "int_each (str_split CHR '','' value_str) = Inl ValueError"
    by (rule int_each_some_bad)
  then show "integers_list value_str = Inl (ArgumentTypeError integers_list_message)"
    by (simp add: integers_list_def)
next
  fix vs
  assume "integers_list value_str = Inr vs"
  then have "int_each (str_split CHR '','' value_str) = Inr vs"
    by (simp add: integers_list_def split: sum.splits if_splits)
  then show "list_all2 (\<lambda>seg v. py_int seg = Inr v) (str_split CHR '','' value_str) vs"
    by (rule int_each_Inr)
next
  show "str_join '','' (str_split CHR '','' value_str) = value_str"
    by (rule str_split_join)
next
  show "list_all (\<lambda>t. CHR '','' \<notin> set t) (str_split CHR '','' value_str)"
    unfolding list_all_iff using str_split_no_sep by blast
next
  show "integers_list ''1,2,3'' = Inr [1, 2, 3]"
    by (simp add: integers_list_def py_int_examples)
next
  show "integers_list ''1,2,x'' = Inl (ArgumentTypeError integers_list_message)"
    by (simp add: integers_list_def py_int_examples)
qed

theorem integers_list_spec_witness:
  "list_all2 (\<lambda>seg v. py_int seg = Inr v) (str_split CHR '','' ''10,-3'') [10, - 3] \<and>
   integers_list ''10,-3'' = Inr [10, - 3] \<and>
   list_ex (\<lambda>seg. py_int seg = Inl ValueError) (str_split CHR '','' ''10,x'') \<and>
   integers_list ''10,x'' = Inl (ArgumentTypeError integers_list_message)"
proof -
  have h1: "list_all2 (\<lambda>seg v. py_int seg = Inr v) (str_split CHR '','' ''10,-3'') [10, - 3]"
    by (simp add: py_int_examples)
  have h2: "list_ex (\<lambda>seg. py_int seg = Inl ValueError) (str_split CHR '','' ''10,x'')"
    by (simp add: py_int_examples)
  have a: "integers_list ''10,-3'' = Inr [10, - 3]"
    using integers_list_spec [of "''10,-3''"] h1 by blast
  have b: "integers_list ''10,x'' = Inl (ArgumentTypeError integers_list_message)"
    using integers_list_spec [of "''10,x''"] h2 by blast
  from h1 a h2 b show ?thesis by (intro conjI)
qed

text \<open>
  C6. With \<^verbatim>\<open>int(text)\<close> equal to \<open>v\<close>, the validator \<^verbatim>\<open>integer_range(min, max)\<close>
  raises the invalid-argument error (its message naming the value and the range) when
  \<open>v < min\<close> or \<open>v \<ge> max\<close>, and returns \<open>v\<close> otherwise; so it returns a value exactly
  when \<open>min \<le> v < max\<close>. \<^verbatim>\<open>integer_range(0, 10)("10")\<close> raises and
  \<^verbatim>\<open>integer_range(0, 10)("9")\<close> is 9.
\<close>

theorem integer_range_spec:
  assumes "py_int value_str = Inr v"
  shows "(v < min_range \<or> max_range \<le> v \<longrightarrow> integer_range min_range max_range value_str =
             Inl (ArgumentTypeError (''invalid integer value '' @ py_repr_int v @ '' (out of range ''
                   @ py_repr_int min_range @ ''-'' @ py_repr_int max_range @ '')''))) \<and>
         (min_range \<le> v \<and> v < max_range \<longrightarrow> integer_range min_range max_range value_str = Inr v) \<and>
         ((\<exists>r. integer_range min_range max_range value_str = Inr r) \<longleftrightarrow> min_range \<le> v \<and> v < max_range) \<and>
         integer_range 0 10 ''10'' =
             Inl (ArgumentTypeError ''invalid integer value 10 (out of range 0-10)'') \<and>
         integer_range 0 10 ''9'' = Inr 9"
proof -
  have g: "integer_range min_range max_range value_str =
      (if v < min_range \<or> v \<ge> max_range then
         Inl (ArgumentTypeError (''invalid integer value '' @ py_repr_int v @ '' (out of range ''
                   @ py_repr_int min_range @ ''-'' @ py_repr_int max_range @ '')''))
       else Inr v)"
    using assms by (simp add: integer_range_def)
  have e10: "integer_range 0 10 ''10'' =
             Inl (ArgumentTypeError ''invalid integer value 10 (out of range 0-10)'')"
    by (simp add: integer_range_def py_int_examples py_repr_int_examples)
  have e9: "integer_range 0 10 ''9'' = Inr 9"
    by (simp add: integer_range_def py_int_examples)
  from g have "(\<exists>r. integer_range min_range max_range value_str = Inr r) \<longleftrightarrow>
      min_range \<le> v \<and> v < max_range"
    by auto
  with g e10 e9 show ?thesis by auto
qed

theorem integer_range_spec_witness:
  "py_int ''9'' = Inr 9 \<and> integer_range 0 10 ''9'' = Inr 9 \<and>
   py_int ''10'' = Inr 10 \<and> (\<nexists>r. integer_range 0 10 ''10'' = Inr r)"
proof -
  have h9: "py_int ''9'' = Inr 9" by (rule py_int_examples)
  have h10: "py_int ''10'' = Inr 10" by (rule py_int_examples)
  from integer_range_spec [OF h9, of 0 10] integer_range_spec [OF h10, of 0 10] h9 h10
  show ?thesis by simp
qed

text \<open>
  C7. \<^verbatim>\<open>comma_separated_enum_list(options, text)\<close> splits the text on every comma (the
  tokens have no comma and, joined by commas, give the text back). When every token is
  an option, it returns the tokens, in order and with their duplicates. When \<open>v\<close> is the
  first token that is not an option, it raises the invalid-argument error whose message
  holds the \<^verbatim>\<open>repr\<close> of \<open>v\<close> and of the options. With the options \<^verbatim>\<open>["a", "b"]\<close>, the
  text \<^verbatim>\<open>a,b,a\<close> gives \<^verbatim>\<open>["a", "b", "a"]\<close> and the text \<^verbatim>\<open>a,c\<close> raises
  \<^verbatim>\<open>invalid value 'c' (allowed values: ['a', 'b'])\<close>.
\<close>

theorem comma_separated_enum_list_spec:
  "(list_all (\<lambda>t. t \<in> set options) (str_split CHR '','' val) \<longrightarrow>
      comma_separated_enum_list options val = Inr (str_split CHR '','' val)) \<and>
   (\<forall>pre v post.
      str_split CHR '','' val = pre @ v # post \<and> list_all (\<lambda>t. t \<in> set options) pre \<and>
      v \<notin> set options \<longrightarrow>
      comma_separated_enum_list options val =
        Inl (ArgumentTypeError (''invalid value '' @ py_repr_str v @ '' (allowed values: ''
               @ py_repr_list options @ '')''))) \<and>
   str_join '','' (str_split CHR '','' val) = val \<and>
   list_all (\<lambda>t. CHR '','' \<notin> set t) (str_split CHR '','' val) \<and>
   comma_separated_enum_list [''a'', ''b''] ''a,b,a'' = Inr [''a'', ''b'', ''a''] \<and>
   comma_separated_enum_list [''a'', ''b''] ''a,c'' =
     Inl (ArgumentTypeError
       (''invalid value '' @ [CHR 0x27, CHR ''c'', CHR 0x27] @ '' (allowed values: [''
          @ [CHR 0x27, CHR ''a'', CHR 0x27] @ '', '' @ [CHR 0x27, CHR ''b'', CHR 0x27] @ ''])''))"
proof (intro conjI allI impI)
  assume "list_all (\<lambda>t. t \<in> set options) (str_split CHR '','' val)"
  then have "enum_loop options (str_split CHR '','' val) = Inr ()"
    by (rule enum_loop_all)
  then show "comma_separated_enum_list options val = Inr (str_split CHR '','' val)"
    by (simp add: comma_separated_enum_list_def)
next
  fix pre v post
  assume a: "str_split CHR '','' val = pre @ v # post \<and> list_all (\<lambda>t. t \<in> set options) pre \<and>
      v \<notin> set options"
  then have "list_all (\<lambda>t. t \<in> set options) pre" and "v \<notin> set options"
    by simp_all
  then have "enum_loop options (pre @ v # post) =
     Inl (ArgumentTypeError (''invalid value '' @ py_repr_str v @ '' (allowed values: ''
            @ py_repr_list options @ '')''))"
    by (rule enum_loop_first)
  with a show "comma_separated_enum_list options val =
        Inl (ArgumentTypeError (''invalid value '' @ py_repr_str v @ '' (allowed values: ''
               @ py_repr_list options @ '')''))"
    by (simp add: comma_separated_enum_list_def)
next
  show "str_join '','' (str_split CHR '','' val) = val"
    by (rule str_split_join)
next
  show "list_all (\<lambda>t. CHR '','' \<notin> set t) (str_split CHR '','' val)"
    unfolding list_all_iff using str_split_no_sep by blast
next
  show "comma_separated_enum_list [''a'', ''b''] ''a,b,a'' = Inr [''a'', ''b'', ''a'']"
    by (simp add: comma_separated_enum_list_def)
next
  show "comma_separated_enum_list [''a'', ''b''] ''a,c'' =
     Inl (ArgumentTypeError
       (''invalid value '' @ [CHR 0x27, CHR ''c'', CHR 0x27] @ '' (allowed values: [''
          @ [CHR 0x27, CHR ''a'', CHR 0x27] @ '', '' @ [CHR 0x27, CHR ''b'', CHR 0x27] @ ''])''))"
    by (simp add: comma_separated_enum_list_def py_repr_str_def py_repr_list_def repr_quote_def
        repr_char_def is_printable_def Let_def)
qed

theorem comma_separated_enum_list_spec_witness:
  "list_all (\<lambda>t. t \<in> set [''a'', ''b'']) (str_split CHR '','' ''b,a,b'') \<and>
   comma_separated_enum_list [''a'', ''b''] ''b,a,b'' = Inr [''b'', ''a'', ''b''] \<and>
   str_split CHR '','' ''b,c,d'' = [''b''] @ ''c'' # [''d''] \<and>
   list_all (\<lambda>t. t \<in> set [''a'', ''b'']) [''b''] \<and> ''c'' \<notin> set [''a'', ''b''] \<and>
   comma_separated_enum_list [''a'', ''b''] ''b,c,d'' =
     Inl (ArgumentTypeError (''invalid value '' @ py_repr_str ''c'' @ '' (allowed values: ''
            @ py_repr_list [''a'', ''b''] @ '')''))"
proof -
  have h1: "list_all (\<lambda>t. t \<in> set [''a'', ''b'']) (str_split CHR '','' ''b,a,b'')"
    by simp
  have s1: "str_split CHR '','' ''b,a,b'' = [''b'', ''a'', ''b'']"
    by simp
  have h2: "str_split CHR '','' ''b,c,d'' = [''b''] @ ''c'' # [''d''] \<and>
      list_all (\<lambda>t. t \<in> set [''a'', ''b'']) [''b''] \<and> ''c'' \<notin> set [''a'', ''b'']"
    by simp
  have a: "comma_separated_enum_list [''a'', ''b''] ''b,a,b'' = Inr [''b'', ''a'', ''b'']"
    using comma_separated_enum_list_spec [of "[''a'', ''b'']" "''b,a,b''"] h1 s1 by simp
  have b: "comma_separated_enum_list [''a'', ''b''] ''b,c,d'' =
     Inl (ArgumentTypeError (''invalid value '' @ py_repr_str ''c'' @ '' (allowed values: ''
            @ py_repr_list [''a'', ''b''] @ '')''))"
    using comma_separated_enum_list_spec [of "[''a'', ''b'']" "''b,c,d''"] h2 by blast
  from h1 a h2 b show ?thesis by (intro conjI) simp_all
qed

text \<open>
  C8. With \<^verbatim>\<open>int(text)\<close> equal to \<open>v\<close>, \<^verbatim>\<open>positive_integer(text)\<close> raises the
  invalid-argument error exactly when \<open>v \<le> 0\<close> (its message naming the value), and
  returns \<open>v\<close> otherwise. \<^verbatim>\<open>positive_integer("0")\<close> and \<^verbatim>\<open>positive_integer("-3")\<close>
  raise, and \<^verbatim>\<open>positive_integer("1")\<close> is 1.
\<close>

theorem positive_integer_spec:
  assumes "py_int value_str = Inr v"
  shows "(v \<le> 0 \<longrightarrow> positive_integer value_str =
             Inl (ArgumentTypeError (''invalid positive integer value: '' @ py_repr_int v))) \<and>
         (0 < v \<longrightarrow> positive_integer value_str = Inr v) \<and>
         ((\<exists>m. positive_integer value_str = Inl (ArgumentTypeError m)) \<longleftrightarrow> v \<le> 0) \<and>
         positive_integer ''0'' = Inl (ArgumentTypeError ''invalid positive integer value: 0'') \<and>
         positive_integer ''-3'' = Inl (ArgumentTypeError ''invalid positive integer value: -3'') \<and>
         positive_integer ''1'' = Inr 1"
proof -
  have g: "positive_integer value_str =
      (if v \<le> 0 then Inl (ArgumentTypeError (''invalid positive integer value: '' @ py_repr_int v))
       else Inr v)"
    using assms by (simp add: positive_integer_def)
  have e0: "positive_integer ''0'' = Inl (ArgumentTypeError ''invalid positive integer value: 0'')"
    by (simp add: positive_integer_def py_int_examples py_repr_int_examples)
  have e3: "positive_integer ''-3'' = Inl (ArgumentTypeError ''invalid positive integer value: -3'')"
    by (simp add: positive_integer_def py_int_examples py_repr_int_examples)
  have e1: "positive_integer ''1'' = Inr 1"
    by (simp add: positive_integer_def py_int_examples)
  from g have "(\<exists>m. positive_integer value_str = Inl (ArgumentTypeError m)) \<longleftrightarrow> v \<le> 0"
    by simp
  with g e0 e3 e1 show ?thesis by simp
qed

theorem positive_integer_spec_witness:
  "py_int ''-3'' = Inr (- 3) \<and>
   positive_integer ''-3'' = Inl (ArgumentTypeError (''invalid positive integer value: '' @ py_repr_int (- 3))) \<and>
   py_int ''1'' = Inr 1 \<and> positive_integer ''1'' = Inr 1"
proof -
  have h3: "py_int ''-3'' = Inr (- 3)" by (rule py_int_examples)
  have h1: "py_int ''1'' = Inr 1" by (rule py_int_examples)
  from positive_integer_spec [OF h3] positive_integer_spec [OF h1] h3 h1 show ?thesis
    by simp
qed

text \<open>
  C9. \<^verbatim>\<open>attach_error_to_stacks\<close> builds a new counter and changes neither argument:
  when the call on the references \<open>source_stacks\<close> and \<open>error_stack\<close> of a heap \<open>h\<close>
  returns the reference \<open>r\<close> and the heap \<open>h'\<close>, then \<open>r\<close> is an address that \<open>h\<close>
  did not have (so neither argument), every counter of \<open>h\<close>, both arguments among them,
  holds in \<open>h'\<close> the keys and counts it held in \<open>h\<close>, and the counter at \<open>r\<close> is the
  result computed on the values of the arguments. The two references may be the same.
\<close>

theorem attach_leaves_arguments_unchanged:
  assumes "source_stacks < length h" and "error_stack < length h"
    and "attach_error_to_stacks_heap h source_stacks error_stack = Inr (r, h')"
  shows "r = length h \<and> r \<noteq> source_stacks \<and> r \<noteq> error_stack \<and>
         length h' = Suc (length h) \<and> take (length h) h' = h \<and>
         h' ! source_stacks = h ! source_stacks \<and> h' ! error_stack = h ! error_stack \<and>
         attach_error_to_stacks (h ! source_stacks) (h ! error_stack) = Inr (h' ! r)"
proof -
  from assms(3) attach_heap_refines [OF assms(1) assms(2)]
  obtain d where d: "attach_error_to_stacks (h ! source_stacks) (h ! error_stack) = Inr d"
      and r: "r = length h" and h': "h' = h @ [d]"
    by (cases "attach_error_to_stacks (h ! source_stacks) (h ! error_stack)") simp_all
  from assms(1) assms(2) r h' d show ?thesis by (simp add: nth_append)
qed

theorem attach_leaves_arguments_unchanged_witness:
  "(0::nat) < length [[(''python;main;foo'', 5::int)], [(''python;[Profiling cpu: denied]'', 1)]] \<and>
   (1::nat) < length [[(''python;main;foo'', 5::int)], [(''python;[Profiling cpu: denied]'', 1)]] \<and>
   attach_error_to_stacks_heap [[(''python;main;foo'', 5)], [(''python;[Profiling cpu: denied]'', 1)]] 0 1
     = Inr (2, [[(''python;main;foo'', 5)], [(''python;[Profiling cpu: denied]'', 1)],
                [(''python;[Profiling cpu: denied];main;foo'', 5)]]) \<and>
   take 2 [[(''python;main;foo'', 5::int)], [(''python;[Profiling cpu: denied]'', 1)],
           [(''python;[Profiling cpu: denied];main;foo'', 5)]]
     = [[(''python;main;foo'', 5)], [(''python;[Profiling cpu: denied]'', 1)]]"
proof -
  let ?h = "[[(''python;main;foo'', 5::int)], [(''python;[Profiling cpu: denied]'', 1)]]"
  have h0: "(0::nat) < length ?h" by simp
  have h1: "(1::nat) < length ?h" by simp
  have p: "attach_error_to_stacks (?h ! 0) (?h ! 1) = Inr [(''python;[Profiling cpu: denied];main;foo'', 5)]"
    by (simp add: attach_error_to_stacks_def error_frame_of_def annotate_def str_split1_def)
  have run: "attach_error_to_stacks_heap ?h 0 1
     = Inr (2, [[(''python;main;foo'', 5)], [(''python;[Profiling cpu: denied]'', 1)],
                [(''python;[Profiling cpu: denied];main;foo'', 5)]])"
    unfolding attach_heap_refines [OF h0 h1] p by simp
  from attach_leaves_arguments_unchanged [OF h0 h1 run] h0 h1 run show ?thesis
    by simp
qed

text \<open>
  C10. The empty text splits into the one token \<^verbatim>\<open>""\<close>. When the empty string is not
  an option, \<^verbatim>\<open>comma_separated_enum_list(options, "")\<close> raises the invalid-argument
  error whose message names \<^verbatim>\<open>''\<close>; and whatever the options, the call does not return
  the empty list.
\<close>

theorem enum_list_empty_input:
  assumes "'''' \<notin> set options"
  shows "str_split CHR '','' '''' = [''''] \<and>
         comma_separated_enum_list options '''' =
           Inl (ArgumentTypeError (''invalid value '' @ [CHR 0x27, CHR 0x27]
                  @ '' (allowed values: '' @ py_repr_list options @ '')'')) \<and>
         comma_separated_enum_list options '''' \<noteq> Inr []"
  using assms by (simp add: comma_separated_enum_list_def py_repr_str_examples)

theorem enum_list_empty_input_witness:
  "'''' \<notin> set [''a'', ''b''] \<and>
   comma_separated_enum_list [''a'', ''b''] '''' =
     Inl (ArgumentTypeError (''invalid value '' @ [CHR 0x27, CHR 0x27]
            @ '' (allowed values: '' @ py_repr_list [''a'', ''b''] @ '')''))"
proof -
  have h: "'''' \<notin> set [''a'', ''b'']" by simp
  from enum_list_empty_input [OF h] h show ?thesis by simp
qed

end
